theory Spec2Isabelle
  imports Complex_Main "HOL-Library.Sublist"
begin

section \<open>llmchat: the rate limiter\<close>

text \<open>
  The source keeps the times of the admitted API calls in the list
  \<^verbatim>\<open>st.session_state.api_calls\<close>, which starts empty. \<^verbatim>\<open>check_rate_limit\<close> reads the
  clock once (\<^verbatim>\<open>now = time.time()\<close>), keeps the entries with \<^verbatim>\<open>t > now - 60\<close>, and
  either refuses (ten or more entries are left) or appends \<^verbatim>\<open>now\<close> and accepts.
  The clock reading is a parameter of the model and the list is passed in and returned.
  Times are seconds as \<^typ>\<open>real\<close>.
\<close>

definition check_rate_limit :: "real \<Rightarrow> real list \<Rightarrow> bool \<times> real list" where
  "check_rate_limit now api_calls =
     (let api_calls = filter (\<lambda>t. t > now - 60) api_calls
      in if length api_calls \<ge> 10 then (False, api_calls)
         else (True, api_calls @ [now]))"

text \<open>
  A sequence of calls at the clock readings \<open>ts\<close>, in order: \<open>run_calls\<close> is the
  list \<^verbatim>\<open>api_calls\<close> after the last of them, \<open>admitted\<close> the readings of the calls that
  returned \<^verbatim>\<open>True\<close>.
\<close>

fun run_calls :: "real list \<Rightarrow> real list \<Rightarrow> real list" where
  "run_calls [] api_calls = api_calls"
| "run_calls (now # ts) api_calls = run_calls ts (snd (check_rate_limit now api_calls))"

fun admitted :: "real list \<Rightarrow> real list \<Rightarrow> real list" where
  "admitted [] api_calls = []"
| "admitted (now # ts) api_calls =
     (if fst (check_rate_limit now api_calls) then [now] else [])
     @ admitted ts (snd (check_rate_limit now api_calls))"

section \<open>Python values and exceptions\<close>

text \<open>
  The exceptions that the submit handler can meet, as values. \<open>HTTPError\<close> carries the
  status code; \<open>RequestException\<close> stands for the transport failures of
  \<^verbatim>\<open>requests\<close> (no connection, a connection that breaks while the body is read);
  \<open>UnicodeDecodeError\<close> is what \<^verbatim>\<open>bytes.decode()\<close> raises on bytes that are not
  UTF-8; \<open>RecursionError\<close> is the other exception that \<^verbatim>\<open>json.loads\<close> can raise on
  a text; \<open>OSError\<close> is the failure of \<^verbatim>\<open>open\<close> in \<^verbatim>\<open>save_chat_history\<close>.
\<close>

datatype py_exn =
  HTTPError nat | RequestException | UnicodeDecodeError | JSONDecodeError | RecursionError
  | TypeError | IndexError | KeyError | AttributeError | OSError

text \<open>
  What \<^verbatim>\<open>json.loads\<close> returns: \<^verbatim>\<open>None\<close>, a bool, a number, a str, a list or a dict
  with str keys (an association list, looked up with \<open>map_of\<close>). The variable
  \<^verbatim>\<open>chunk_json\<close> holds such a value; it starts as the empty str.
\<close>

datatype json =
  JNull | JBool bool | JNum real | JStr string | JList "json list"
  | JDict "(string \<times> json) list"

text \<open>
  \<^verbatim>\<open>json.loads\<close> itself belongs to the standard library. The model takes it as a
  parameter \<open>loads\<close>: for a text, the parsed value, or the exception that
  \<^verbatim>\<open>json.loads\<close> raises on it (\<^verbatim>\<open>JSONDecodeError\<close> for a text that is not JSON).
\<close>

type_synonym json_loads = "string \<Rightarrow> py_exn + json"

text \<open>\<^verbatim>\<open>k in v\<close> for a str \<open>k\<close>: key of a dict, substring of a str, element of a list;
  \<^verbatim>\<open>TypeError\<close> on the values that are not iterable.\<close>

fun py_in :: "string \<Rightarrow> json \<Rightarrow> py_exn + bool" where
  "py_in k (JDict kvs) = Inr (k \<in> set (map fst kvs))"
| "py_in k (JStr s) = Inr (sublist k s)"
| "py_in k (JList xs) = Inr (JStr k \<in> set xs)"
| "py_in k v = Inl TypeError"

text \<open>\<^verbatim>\<open>v[k]\<close> for a str \<open>k\<close>: the value of a dict, \<^verbatim>\<open>KeyError\<close> when the key is
  missing; \<^verbatim>\<open>TypeError\<close> on everything else.\<close>

fun getitem :: "json \<Rightarrow> string \<Rightarrow> py_exn + json" where
  "getitem (JDict kvs) k = (case map_of kvs k of None \<Rightarrow> Inl KeyError | Some v \<Rightarrow> Inr v)"
| "getitem v k = Inl TypeError"

text \<open>\<^verbatim>\<open>v[0]\<close>: the first element of a list or the first character of a str
  (\<^verbatim>\<open>IndexError\<close> when empty), \<^verbatim>\<open>KeyError\<close> on a dict (its keys are strs),
  \<^verbatim>\<open>TypeError\<close> otherwise.\<close>

fun getitem0 :: "json \<Rightarrow> py_exn + json" where
  "getitem0 (JList []) = Inl IndexError"
| "getitem0 (JList (x # xs)) = Inr x"
| "getitem0 (JStr []) = Inl IndexError"
| "getitem0 (JStr (c # cs)) = Inr (JStr [c])"
| "getitem0 (JDict kvs) = Inl KeyError"
| "getitem0 v = Inl TypeError"

text \<open>\<^verbatim>\<open>v.get("delta", {})\<close>: only a dict has the method.\<close>

fun get_delta :: "json \<Rightarrow> py_exn + json" where
  "get_delta (JDict kvs) =
     Inr (case map_of kvs ''delta'' of None \<Rightarrow> JDict [] | Some d \<Rightarrow> d)"
| "get_delta v = Inl AttributeError"

text \<open>\<^verbatim>\<open>full_response += v\<close>: a str can only be extended by a str.\<close>

fun iadd_str :: "string \<Rightarrow> json \<Rightarrow> py_exn + string" where
  "iadd_str full_response (JStr s) = Inr (full_response @ s)"
| "iadd_str full_response v = Inl TypeError"

text \<open>
  A Python \<^verbatim>\<open>str\<close> is a \<^typ>\<open>string\<close> here, one \<^typ>\<open>char\<close> per character: the
  texts of the model are those whose characters are the code points up to U+00FF.
  \<^verbatim>\<open>str.strip()\<close> removes whitespace at both ends; among these code points the
  whitespace characters of Python are U+0009 to U+000D, U+001C to U+0020, U+0085 and
  U+00A0. \<^verbatim>\<open>str.lstrip(chars)\<close> removes from the left every character that occurs
  in \<open>chars\<close>.
\<close>

definition isspace :: "char \<Rightarrow> bool" where
  "isspace c =
     (c \<in> set [CHR 0x09, CHR 0x0A, CHR 0x0B, CHR 0x0C, CHR 0x0D,
               CHR 0x1C, CHR 0x1D, CHR 0x1E, CHR 0x1F, CHR 0x20,
               CHR 0x85, CHR 0xA0])"

definition strip :: "string \<Rightarrow> string" where
  "strip s = rev (dropWhile isspace (rev (dropWhile isspace s)))"

definition lstrip :: "string \<Rightarrow> string \<Rightarrow> string" where
  "lstrip chars s = dropWhile (\<lambda>c. c \<in> set chars) s"

section \<open>The streaming loop\<close>

text \<open>
  A line of the body, as \<^verbatim>\<open>iter_lines\<close> yields it, is a \<^verbatim>\<open>bytes\<close> object. The code
  tests whether it is empty and calls \<^verbatim>\<open>decode()\<close> on it, nothing else, so a line is
  modelled by what \<^verbatim>\<open>decode()\<close> makes of it: \<open>Utf8 t\<close> is the line whose bytes are
  the UTF-8 encoding of the text \<open>t\<close>, \<open>Not_utf8\<close> a line whose bytes are not UTF-8
  (such a line is not empty).
\<close>

datatype body_line = Not_utf8 | Utf8 string

fun is_empty :: "body_line \<Rightarrow> bool" where
  "is_empty Not_utf8 = False"
| "is_empty (Utf8 t) = (t = [])"

fun decode :: "body_line \<Rightarrow> py_exn + string" where
  "decode Not_utf8 = Inl UnicodeDecodeError"
| "decode (Utf8 t) = Inr t"

text \<open>
  One pass of the body of \<^verbatim>\<open>for chunk in response.iter_lines()\<close> for a non-empty
  \<open>chunk\<close>, in two parts. \<open>decode_chunk\<close> is the provider branch: it gives the new value
  of \<^verbatim>\<open>chunk_json\<close>. For \<^verbatim>\<open>"OpenRouter"\<close> a chunk that does not start with
  \<^verbatim>\<open>"data: "\<close> assigns nothing, so \<^verbatim>\<open>chunk_json\<close> keeps the value of the pass before.
\<close>

definition decode_chunk ::
  "json_loads \<Rightarrow> string \<Rightarrow> json \<Rightarrow> body_line \<Rightarrow> py_exn + json" where
  "decode_chunk loads api_provider chunk_json chunk =
     (if api_provider = ''OpenRouter'' then
        (case decode chunk of
           Inl e \<Rightarrow> Inl e
         | Inr decoded \<Rightarrow>
             (let chunk_str = strip decoded
              in if prefix ''data: '' chunk_str then loads (drop 6 chunk_str)
                 else Inr chunk_json))
      else
        (case decode chunk of
           Inl e \<Rightarrow> Inl e
         | Inr decoded \<Rightarrow> loads (lstrip ''data: '' decoded)))"

text \<open>\<open>add_delta\<close> is the second part, from \<^verbatim>\<open>if "choices" in chunk_json\<close> on: it
  gives the new value of \<^verbatim>\<open>full_response\<close>.\<close>

definition add_delta :: "json \<Rightarrow> string \<Rightarrow> py_exn + string" where
  "add_delta chunk_json full_response =
     (case py_in ''choices'' chunk_json of
        Inl e \<Rightarrow> Inl e
      | Inr False \<Rightarrow> Inr full_response
      | Inr True \<Rightarrow>
          (case getitem chunk_json ''choices'' of
             Inl e \<Rightarrow> Inl e
           | Inr choices \<Rightarrow>
               (case getitem0 choices of
                  Inl e \<Rightarrow> Inl e
                | Inr choice \<Rightarrow>
                    (case get_delta choice of
                       Inl e \<Rightarrow> Inl e
                     | Inr delta \<Rightarrow>
                         (case py_in ''content'' delta of
                            Inl e \<Rightarrow> Inl e
                          | Inr False \<Rightarrow> Inr full_response
                          | Inr True \<Rightarrow>
                              (case getitem delta ''content'' of
                                 Inl e \<Rightarrow> Inl e
                               | Inr v \<Rightarrow> iadd_str full_response v))))))"

text \<open>The loop over the lines of the body, with the two variables it updates.  An
  exception leaves the loop at once.\<close>

fun stream_loop ::
  "json_loads \<Rightarrow> string \<Rightarrow> body_line list \<Rightarrow> json \<Rightarrow> string
     \<Rightarrow> py_exn + json \<times> string" where
  "stream_loop loads api_provider [] chunk_json full_response =
     Inr (chunk_json, full_response)"
| "stream_loop loads api_provider (chunk # chunks) chunk_json full_response =
     (if is_empty chunk then stream_loop loads api_provider chunks chunk_json full_response
      else
        (case decode_chunk loads api_provider chunk_json chunk of
           Inl e \<Rightarrow> Inl e
         | Inr chunk_json \<Rightarrow>
             (case add_delta chunk_json full_response of
                Inl e \<Rightarrow> Inl e
              | Inr full_response \<Rightarrow>
                  stream_loop loads api_provider chunks chunk_json full_response)))"

section \<open>Session state and the history directory\<close>

record message =
  role :: string
  content :: string

text \<open>
  The object that \<^verbatim>\<open>save_chat_history\<close> writes. A file of the directory
  \<^verbatim>\<open>chat_history\<close> is modelled by the object it holds: the text between
  \<^verbatim>\<open>json.dump\<close> and \<^verbatim>\<open>json.load\<close> is the library's. The directory is the list of
  its files, name and content, in the order \<^verbatim>\<open>os.listdir\<close> gives them.
\<close>

record saved_chat =
  timestamp :: string
  saved_messages :: "message list"

type_synonym directory = "(string \<times> saved_chat) list"

record session_state =
  messages :: "message list"
  current_chat :: string
  api_calls :: "real list"

text \<open>\<^verbatim>\<open>open(path, "w")\<close> and the write: the file is created or replaced.\<close>

definition write_file :: "string \<Rightarrow> saved_chat \<Rightarrow> directory \<Rightarrow> directory" where
  "write_file name obj dir = filter (\<lambda>entry. fst entry \<noteq> name) dir @ [(name, obj)]"

text \<open>
  \<^verbatim>\<open>save_chat_history\<close>. \<open>can_write\<close> says whether \<^verbatim>\<open>open\<close> succeeds; when it does
  not, \<^verbatim>\<open>OSError\<close> is raised and the directory is as before. After a successful
  \<^verbatim>\<open>open\<close> the write is taken to succeed: a save that fails halfway, leaving a file
  that holds no object, is not among the cases of the model. \<open>stamp\<close> is
  \<^verbatim>\<open>datetime.now().isoformat()\<close>.
\<close>

definition save_chat_history ::
  "bool \<Rightarrow> string \<Rightarrow> session_state \<Rightarrow> directory \<Rightarrow> py_exn + directory" where
  "save_chat_history can_write stamp s dir =
     (if can_write then
        Inr (write_file (current_chat s @ ''.json'')
               \<lparr>timestamp = stamp, saved_messages = messages s\<rparr> dir)
      else Inl OSError)"

text \<open>\<^verbatim>\<open>load_chat_history\<close>: the loop over the directory listing fills the dict
  \<^verbatim>\<open>history\<close>, keyed by the file name without its last five characters.\<close>

fun load_files :: "directory \<Rightarrow> (string \<rightharpoonup> saved_chat) \<Rightarrow> (string \<rightharpoonup> saved_chat)" where
  "load_files [] history = history"
| "load_files ((file, obj) # rest) history =
     load_files rest
       (if suffix ''.json'' file then history(take (length file - 5) file \<mapsto> obj)
        else history)"

definition load_chat_history :: "directory \<Rightarrow> (string \<rightharpoonup> saved_chat)" where
  "load_chat_history dir = load_files dir Map.empty"

text \<open>\<^verbatim>\<open>list.pop()\<close>: removes the last element, whichever it is; \<^verbatim>\<open>IndexError\<close> on
  the empty list.\<close>

definition pop :: "'a list \<Rightarrow> py_exn + 'a list" where
  "pop xs = (if xs = [] then Inl IndexError else Inr (butlast xs))"

section \<open>One submit\<close>

text \<open>
  An uploaded file, as \<^verbatim>\<open>read_uploaded_file\<close> sees it: its declared type, what
  \<^verbatim>\<open>file.read().decode()\<close> gives (\<open>None\<close> when it raises) and the texts of the
  paragraphs that \<^verbatim>\<open>Document(file)\<close> finds (\<open>None\<close> when it raises). Every exception
  is caught inside \<^verbatim>\<open>read_uploaded_file\<close> and turned into the empty text.
\<close>

record uploaded =
  file_type :: string
  decoded_text :: "string option"
  paragraphs :: "string list option"

fun join :: "string \<Rightarrow> string list \<Rightarrow> string" where
  "join sep [] = []"
| "join sep [x] = x"
| "join sep (x # y # ys) = x @ sep @ join sep (y # ys)"

definition read_uploaded_file :: "uploaded \<Rightarrow> string" where
  "read_uploaded_file file =
     (if file_type file = ''text/plain'' then
        (case decoded_text file of None \<Rightarrow> [] | Some t \<Rightarrow> t)
      else if file_type file
                = ''application/vnd.openxmlformats-officedocument.wordprocessingml.document''
      then (case paragraphs file of None \<Rightarrow> [] | Some ps \<Rightarrow> join [CHR 0x0A] ps)
      else [])"

text \<open>
  What one run of the script reads from outside: the clock, the widgets of the sidebar,
  the uploaded file (\<open>None\<close> when no file is attached), the prompt, and what the
  provider answers to the request. The request itself (headers, model, the preamble and
  the messages, the sampling parameters) only reaches the server, whose answer is an
  input here.
\<close>

datatype http_reply =
  NoReply
  | Reply nat "body_line list" bool

text \<open>
  \<open>NoReply\<close>: \<^verbatim>\<open>requests.post\<close> raises. \<open>Reply status lines intact\<close>: the status
  code, the lines that \<^verbatim>\<open>iter_lines\<close> yields, and whether the body ends normally
  after them (otherwise \<^verbatim>\<open>iter_lines\<close> raises after the last line).
\<close>

record run_input =
  clock :: real
  iso_time :: string
  api_provider :: string
  api_key :: string
  uploaded_file :: "uploaded option"
  prompt :: string
  reply :: http_reply
  writable :: bool

text \<open>Line 109: \<^verbatim>\<open>read_uploaded_file(uploaded_file) if uploaded_file else ""\<close>.\<close>

definition file_content :: "run_input \<Rightarrow> string" where
  "file_content inp =
     (case uploaded_file inp of None \<Rightarrow> [] | Some file \<Rightarrow> read_uploaded_file file)"

datatype outcome =
  NoPrompt | RateLimited | MissingApiKey | Failed py_exn | Uncaught py_exn
  | Answered string

text \<open>Lines 150 to 173: the request, \<^verbatim>\<open>raise_for_status\<close> and the loop.\<close>

definition stream_response :: "json_loads \<Rightarrow> run_input \<Rightarrow> py_exn + string" where
  "stream_response loads inp =
     (case reply inp of
        NoReply \<Rightarrow> Inl RequestException
      | Reply status lines intact \<Rightarrow>
          if 400 \<le> status \<and> status < 600 then Inl (HTTPError status)
          else
            (case stream_loop loads (api_provider inp) lines (JStr []) [] of
               Inl e \<Rightarrow> Inl e
             | Inr (chunk_json, full_response) \<Rightarrow>
                 if intact then Inr full_response else Inl RequestException))"

text \<open>The body of \<^verbatim>\<open>try\<close>: after the loop the assistant message is appended and the
  chat is saved.\<close>

definition try_body ::
  "json_loads \<Rightarrow> run_input \<Rightarrow> session_state \<Rightarrow> directory
     \<Rightarrow> (py_exn + string) \<times> session_state \<times> directory" where
  "try_body loads inp s dir =
     (case stream_response loads inp of
        Inl e \<Rightarrow> (Inl e, s, dir)
      | Inr full_response \<Rightarrow>
          (let s = s\<lparr>messages :=
                      messages s @ [\<lparr>role = ''assistant'', content = full_response\<rparr>]\<rparr>
           in case save_chat_history (writable inp) (iso_time inp) s dir of
                Inl e \<Rightarrow> (Inl e, s, dir)
              | Inr dir \<Rightarrow> (Inr full_response, s, dir)))"

text \<open>
  The block under \<^verbatim>\<open>if prompt := st.chat_input(...)\<close>. Both \<^verbatim>\<open>except\<close> clauses end
  with \<^verbatim>\<open>st.session_state.messages.pop()\<close>; they differ in the message shown only.
\<close>

definition submit ::
  "json_loads \<Rightarrow> run_input \<Rightarrow> session_state \<Rightarrow> directory
     \<Rightarrow> outcome \<times> session_state \<times> directory" where
  "submit loads inp s dir =
     (if prompt inp = [] then (NoPrompt, s, dir)
      else
        (case check_rate_limit (clock inp) (api_calls s) of
           (False, calls) \<Rightarrow> (RateLimited, s\<lparr>api_calls := calls\<rparr>, dir)
         | (True, calls) \<Rightarrow>
             (let s = s\<lparr>api_calls := calls\<rparr>
              in if api_key inp = [] then (MissingApiKey, s, dir)
                 else
                   (let full_prompt =
                          (if file_content inp \<noteq> []
                           then file_content inp @ [CHR 0x0A] @ prompt inp
                           else prompt inp);
                        s = s\<lparr>messages :=
                                 messages s @ [\<lparr>role = ''user'', content = full_prompt\<rparr>]\<rparr>
                    in case try_body loads inp s dir of
                         (Inr full_response, s, dir) \<Rightarrow> (Answered full_response, s, dir)
                       | (Inl e, s, dir) \<Rightarrow>
                           (case pop (messages s) of
                              Inl e' \<Rightarrow> (Uncaught e', s, dir)
                            | Inr ms \<Rightarrow> (Failed e, s\<lparr>messages := ms\<rparr>, dir))))))"

text \<open>The button \<^verbatim>\<open>New Chat\<close>: the chat is saved, then a new identifier (a fresh
  \<^verbatim>\<open>uuid4\<close>, a parameter here) and an empty log replace the current ones.\<close>

definition new_chat ::
  "bool \<Rightarrow> string \<Rightarrow> string \<Rightarrow> session_state \<Rightarrow> directory \<Rightarrow> py_exn + session_state \<times> directory" where
  "new_chat can_write stamp new_id s dir =
     (case save_chat_history can_write stamp s dir of
        Inl e \<Rightarrow> Inl e
      | Inr dir \<Rightarrow> Inr (s\<lparr>current_chat := new_id, messages := []\<rparr>, dir))"

section \<open>The response as the specification words it\<close>

text \<open>
  The specification describes the assistant text as the deltas of the parsed frames, in
  order. \<open>delta_content\<close> is the path \<^verbatim>\<open>choices[0].delta.content\<close> of a payload, when
  the payload has it and a text stands there. \<open>parsed_frame\<close> is the payload of a frame
  that the loop hands to \<^verbatim>\<open>json.loads\<close> with success. \<open>deltas_in_order\<close> concatenates
  one delta for each such frame; it is the text that the loop is compared with.
\<close>

definition delta_content :: "json \<Rightarrow> string option" where
  "delta_content payload =
     (case payload of
        JDict kvs \<Rightarrow>
          (case map_of kvs ''choices'' of
             Some (JList (JDict choice # rest)) \<Rightarrow>
               (case map_of choice ''delta'' of
                  Some (JDict delta) \<Rightarrow>
                    (case map_of delta ''content'' of
                       Some (JStr text) \<Rightarrow> Some text
                     | _ \<Rightarrow> None)
                | _ \<Rightarrow> None)
           | _ \<Rightarrow> None)
      | _ \<Rightarrow> None)"

definition parsed_text :: "json_loads \<Rightarrow> string \<Rightarrow> json option" where
  "parsed_text loads payload_text =
     (case loads payload_text of Inl e \<Rightarrow> None | Inr payload \<Rightarrow> Some payload)"

fun parsed_frame :: "json_loads \<Rightarrow> string \<Rightarrow> body_line \<Rightarrow> json option" where
  "parsed_frame loads provider Not_utf8 = None"
| "parsed_frame loads provider (Utf8 t) =
     (if t = [] then None
      else if provider = ''OpenRouter'' then
        (if prefix ''data: '' (strip t) then parsed_text loads (drop 6 (strip t)) else None)
      else parsed_text loads (lstrip ''data: '' t))"

definition frame_delta :: "json_loads \<Rightarrow> string \<Rightarrow> body_line \<Rightarrow> string" where
  "frame_delta loads provider chunk =
     (case parsed_frame loads provider chunk of
        None \<Rightarrow> []
      | Some payload \<Rightarrow> (case delta_content payload of None \<Rightarrow> [] | Some text \<Rightarrow> text))"

definition deltas_in_order :: "json_loads \<Rightarrow> string \<Rightarrow> body_line list \<Rightarrow> string" where
  "deltas_in_order loads provider chunks = concat (map (frame_delta loads provider) chunks)"

section \<open>Sample inputs\<close>

text \<open>
  The inputs of the worked examples. \<open>sample_loads\<close> gives what \<^verbatim>\<open>json.loads\<close> gives on
  the three payload texts that the examples feed to it: the two well-formed objects
  parse to the dicts shown, and \<^verbatim>\<open>{broken\<close> raises \<^verbatim>\<open>JSONDecodeError\<close>. The sample
  lines are ASCII.
\<close>

definition delta_payload :: "string \<Rightarrow> json" where
  "delta_payload text =
     JDict [(''choices'', JList [JDict [(''delta'', JDict [(''content'', JStr text)])]])]"

definition sample_loads :: json_loads where
  \<open>sample_loads text =
     (if text = ''{"choices":[{"delta":{"content":"Hi"}}]}'' then Inr (delta_payload ''Hi'')
      else if text = ''{"choices":[{"delta":{"content":" there"}}]}''
      then Inr (delta_payload '' there'')
      else Inl JSONDecodeError)\<close>

definition frame_hi :: body_line where
  \<open>frame_hi = Utf8 ''data: {"choices":[{"delta":{"content":"Hi"}}]}''\<close>

definition frame_there :: body_line where
  \<open>frame_there = Utf8 ''data: {"choices":[{"delta":{"content":" there"}}]}''\<close>

definition frame_broken :: body_line where
  \<open>frame_broken = Utf8 ''data: {broken''\<close>

definition frame_comment :: body_line where
  \<open>frame_comment = Utf8 '': OPENROUTER PROCESSING''\<close>

definition frame_empty :: body_line where
  "frame_empty = Utf8 []"

definition text_file :: "string \<Rightarrow> uploaded" where
  "text_file t = \<lparr>file_type = ''text/plain'', decoded_text = Some t, paragraphs = None\<rparr>"

definition hello :: run_input where
  "hello =
     \<lparr>clock = 100, iso_time = ''2024-05-01T12:00:00'', api_provider = ''OpenRouter'',
      api_key = ''sk-test'', uploaded_file = None, prompt = ''Hello'',
      reply = Reply 200 [frame_hi, frame_empty, frame_there] True, writable = True\<rparr>"

definition fresh :: session_state where
  "fresh = \<lparr>messages = [], current_chat = ''chat-1'', api_calls = []\<rparr>"

definition user_msg :: "string \<Rightarrow> message" where
  "user_msg text = \<lparr>role = ''user'', content = text\<rparr>"

definition assistant_msg :: "string \<Rightarrow> message" where
  "assistant_msg text = \<lparr>role = ''assistant'', content = text\<rparr>"

section \<open>Properties of the rate limiter\<close>

lemma run_calls_snoc:
  "run_calls (ts @ [now]) w = snd (check_rate_limit now (run_calls ts w))"
  by (induction ts arbitrary: w) simp_all

lemma admitted_snoc:
  "admitted (ts @ [now]) w =
     admitted ts w @ (if fst (check_rate_limit now (run_calls ts w)) then [now] else [])"
  by (induction ts arbitrary: w) simp_all

lemma check_rate_limit_le10:
  "length w \<le> 10 \<Longrightarrow> length (snd (check_rate_limit now w)) \<le> 10"
proof -
  assume "length w \<le> 10"
  then have "length (filter (\<lambda>t. t > now - 60) w) \<le> 10"
    by (rule order_trans [OF length_filter_le])
  then show ?thesis
    by (simp add: check_rate_limit_def Let_def)
qed

lemma run_calls_le10: "length w \<le> 10 \<Longrightarrow> length (run_calls ts w) \<le> 10"
  by (induction ts arbitrary: w) (simp_all add: check_rate_limit_le10)

lemma check_rate_limit_set:
  "set (snd (check_rate_limit now w)) \<subseteq> {t \<in> set w. now - 60 < t} \<union> {now}"
  by (auto simp: check_rate_limit_def Let_def)

lemma run_calls_set: "set (run_calls ts w) \<subseteq> set w \<union> set ts"
proof (induction ts arbitrary: w)
  case Nil
  show ?case by simp
next
  case (Cons now ts)
  have "set (run_calls ts (snd (check_rate_limit now w))) \<subseteq> set (snd (check_rate_limit now w)) \<union> set ts"
    by (rule Cons.IH)
  with check_rate_limit_set [of now w] show ?case by auto
qed

lemma admitted_set: "set (admitted ts w) \<subseteq> set ts"
  by (induction ts arbitrary: w) auto

lemma filter_window_mono:
  fixes now now' :: real
  assumes "now \<le> now'"
  shows "filter (\<lambda>t. t > now' - 60) (filter (\<lambda>t. t > now - 60) w) = filter (\<lambda>t. t > now' - 60) w"
  using assms by (induction w) auto

lemma window_is_recent_history:
  assumes "sorted ts" "\<forall>t \<in> set ts. t \<le> now"
  shows "filter (\<lambda>t. t > now - 60) (run_calls ts []) = filter (\<lambda>t. t > now - 60) (admitted ts [])"
  using assms
proof (induction ts arbitrary: now rule: rev_induct)
  case Nil
  show ?case by simp
next
  case (snoc c ts)
  have s: "sorted ts" and le: "\<forall>t \<in> set ts. t \<le> c" and cn: "c \<le> now"
    using snoc.prems by (auto simp: sorted_append)
  have up: "\<forall>t \<in> set ts. t \<le> now" using le cn by auto
  have IHn: "filter (\<lambda>t. t > now - 60) (run_calls ts []) = filter (\<lambda>t. t > now - 60) (admitted ts [])"
    using snoc.IH [OF s up] .
  have pr: "filter (\<lambda>t. t > now - 60) (filter (\<lambda>t. t > c - 60) (run_calls ts []))
            = filter (\<lambda>t. t > now - 60) (run_calls ts [])"
    using filter_window_mono [OF cn] .
  have "filter (\<lambda>t. t > now - 60) (snd (check_rate_limit c (run_calls ts [])))
        = filter (\<lambda>t. t > now - 60) (filter (\<lambda>t. t > c - 60) (run_calls ts []))
          @ (if fst (check_rate_limit c (run_calls ts [])) then filter (\<lambda>t. t > now - 60) [c] else [])"
    by (simp add: check_rate_limit_def Let_def del: filter_filter)
  then show ?case
    by (simp add: run_calls_snoc admitted_snoc pr IHn del: filter_filter)
qed

lemma history_window_bound:
  assumes "sorted ts"
  shows "length (filter (\<lambda>t. a - 60 < t \<and> t \<le> a) (admitted ts [])) \<le> 10"
  using assms
proof (induction ts rule: rev_induct)
  case Nil
  show ?case by simp
next
  case (snoc c ts)
  have s: "sorted ts" and le: "\<forall>t \<in> set ts. t \<le> c"
    using snoc.prems by (auto simp: sorted_append)
  have IH: "length (filter (\<lambda>t. a - 60 < t \<and> t \<le> a) (admitted ts [])) \<le> 10"
    using snoc.IH [OF s] .
  let ?w = "filter (\<lambda>t. t > c - 60) (run_calls ts [])"
  show ?case
  proof (cases "fst (check_rate_limit c (run_calls ts [])) \<and> a - 60 < c \<and> c \<le> a")
    case False
    then show ?thesis using IH by (auto simp: admitted_snoc)
  next
    case True
    then have small: "length ?w < 10"
      by (auto simp: check_rate_limit_def Let_def split: if_splits)
    have hist: "?w = filter (\<lambda>t. t > c - 60) (admitted ts [])"
      using window_is_recent_history [OF s le] .
    have "filter (\<lambda>t. a - 60 < t \<and> t \<le> a) (admitted ts [])
          = filter (\<lambda>t. a - 60 < t \<and> t \<le> a) (filter (\<lambda>t. t > c - 60) (admitted ts []))"
      using True le admitted_set [of ts "[]"] by (auto intro!: filter_cong)
    then have "length (filter (\<lambda>t. a - 60 < t \<and> t \<le> a) (admitted ts [])) \<le> length ?w"
      using hist by (metis length_filter_le)
    with small True show ?thesis by (simp add: admitted_snoc)
  qed
qed


lemma first_ten_admitted:
  assumes "sorted ts" "length ts \<le> 10" "\<forall>t \<in> set ts. c - 60 < t \<and> t \<le> c"
  shows "run_calls ts [] = ts \<and> admitted ts [] = ts"
  using assms
proof (induction ts rule: rev_induct)
  case Nil
  show ?case by simp
next
  case (snoc x ts)
  have s: "sorted ts" and le: "\<forall>t \<in> set ts. t \<le> x"
    using snoc.prems(1) by (auto simp: sorted_append)
  have len: "length ts < 10" using snoc.prems(2) by simp
  have rng: "\<forall>t \<in> set ts. c - 60 < t \<and> t \<le> c" and xc: "x \<le> c"
    using snoc.prems(3) by auto
  have IH: "run_calls ts [] = ts" "admitted ts [] = ts"
    using snoc.IH [OF s _ rng] len by auto
  have keep: "filter (\<lambda>t. t > x - 60) ts = ts"
    using rng xc by (auto simp: filter_id_conv)
  have "check_rate_limit x ts = (True, ts @ [x])"
    using len by (simp add: check_rate_limit_def Let_def keep)
  then show ?case by (simp add: run_calls_snoc admitted_snoc IH)
qed

lemma submit_rejected:
  assumes "prompt inp \<noteq> []" "\<not> fst (check_rate_limit (clock inp) (api_calls s))"
  shows "submit loads inp s dir =
           (RateLimited, s\<lparr>api_calls := filter (\<lambda>t. t > clock inp - 60) (api_calls s)\<rparr>, dir)"
  using assms by (auto simp: submit_def check_rate_limit_def Let_def split: if_splits)

text \<open>
  C2, as the code has it. After every sequence of calls the list \<^verbatim>\<open>api_calls\<close> has at
  most ten entries, whatever the clock readings. When the readings \<open>ts @ [now]\<close> of the
  successive calls do not decrease, every entry kept after the call at \<open>now\<close> lies in
  \<open>(now - 60, now]\<close>, hence in \<open>[now - 60, now]\<close>, and among all the readings admitted
  so far no half-open trailing interval \<open>(a - 60, a]\<close> holds more than ten.
\<close>

theorem rate_window_invariant:
  "length (run_calls ts []) \<le> 10
   \<and> (sorted (ts @ [now]) \<longrightarrow>
        (\<forall>t \<in> set (run_calls (ts @ [now]) []).
            now - 60 < t \<and> t \<le> now \<and> t \<in> {now - 60 .. now})
        \<and> (\<forall>a. length (filter (\<lambda>t. a - 60 < t \<and> t \<le> a) (admitted (ts @ [now]) [])) \<le> 10))"
proof -
  have len: "length (run_calls ts []) \<le> 10"
    by (rule run_calls_le10) simp
  have rng: "now - 60 < t \<and> t \<le> now \<and> t \<in> {now - 60 .. now}"
    if srt: "sorted (ts @ [now])" and t: "t \<in> set (run_calls (ts @ [now]) [])" for t
  proof -
    have le: "\<forall>t \<in> set ts. t \<le> now"
      using srt by (auto simp: sorted_append)
    from t have "t \<in> {t \<in> set (run_calls ts []). now - 60 < t} \<union> {now}"
      using check_rate_limit_set [of now "run_calls ts []"] by (auto simp: run_calls_snoc)
    moreover have "set (run_calls ts []) \<subseteq> set ts"
      using run_calls_set [of ts "[]"] by simp
    ultimately show ?thesis using le by auto
  qed
  have hist: "length (filter (\<lambda>t. a - 60 < t \<and> t \<le> a) (admitted (ts @ [now]) [])) \<le> 10"
    if srt: "sorted (ts @ [now])" for a
    by (rule history_window_bound [OF srt])
  from len rng hist show ?thesis by blast
qed

theorem rate_window_invariant_witness:
  "sorted ([1, 2, 3, 4, 5, 6, 7, 8, 9, 10, 11] @ [12 :: real])
   \<and> run_calls ([1, 2, 3, 4, 5, 6, 7, 8, 9, 10, 11] @ [12]) [] = [1, 2, 3, 4, 5, 6, 7, 8, 9, 10]
   \<and> length (run_calls [1, 2, 3, 4, 5, 6, 7, 8, 9, 10, 11] []) \<le> 10
   \<and> set (run_calls ([1, 2, 3, 4, 5, 6, 7, 8, 9, 10, 11] @ [12]) []) \<subseteq> {12 - 60 <.. 12}
   \<and> length (filter (\<lambda>t. 12 - 60 < t \<and> t \<le> 12)
               (admitted ([1, 2, 3, 4, 5, 6, 7, 8, 9, 10, 11] @ [12]) [])) \<le> 10"
proof -
  let ?ts = "[1, 2, 3, 4, 5, 6, 7, 8, 9, 10, 11 :: real]"
  have srt: "sorted (?ts @ [12])" by simp
  have run: "run_calls (?ts @ [12]) [] = [1, 2, 3, 4, 5, 6, 7, 8, 9, 10]"
    by (simp add: check_rate_limit_def)
  note inv = rate_window_invariant [of ?ts 12]
  from inv have len: "length (run_calls ?ts []) \<le> 10"
    by blast
  from inv srt have "\<forall>t \<in> set (run_calls (?ts @ [12]) []). 12 - 60 < t \<and> t \<le> 12"
    by blast
  then have rng: "set (run_calls (?ts @ [12]) []) \<subseteq> {12 - 60 <.. 12}"
    by (simp only: subset_iff greaterThanAtMost_iff) blast
  from inv srt have hist: "length (filter (\<lambda>t. 12 - 60 < t \<and> t \<le> 12)
                         (admitted (?ts @ [12]) [])) \<le> 10"
    by blast
  from srt run len rng hist show ?thesis by blast
qed

text \<open>
  C2 as stated fails in two ways. The clock of \<^verbatim>\<open>time.time()\<close> can be set back: after
  calls at 100 and then at 50 the list keeps 100, which is outside \<open>[50 - 60, 50]\<close>.
  And with readings that do not decrease, ten calls at 0 and one at 60 are all admitted,
  eleven readings inside the closed interval \<open>[60 - 60, 60]\<close>: the entries that are
  exactly 60 seconds old are pruned before the count.
\<close>

theorem rate_window_counterexample:
  "run_calls [100, 50] [] = [100, 50]
   \<and> (100 :: real) \<notin> {50 - 60 .. 50}
   \<and> admitted ([0, 0, 0, 0, 0, 0, 0, 0, 0, 0] @ [60]) [] = [0, 0, 0, 0, 0, 0, 0, 0, 0, 0, 60]
   \<and> length (filter (\<lambda>t. 60 - 60 \<le> t \<and> t \<le> 60)
               (admitted ([0, 0, 0, 0, 0, 0, 0, 0, 0, 0] @ [60]) [])) = 11"
  by (simp add: check_rate_limit_def)

text \<open>
  C3, as the code has it. A call keeps the entries with \<^verbatim>\<open>t > now - 60\<close>: it prunes
  the entries that are 60 seconds old or older. It returns \<^verbatim>\<open>False\<close> exactly when ten or
  more are left, and then the list is the pruned one; otherwise it appends the clock
  reading and returns \<^verbatim>\<open>True\<close>. A submit whose call is refused ends as \<open>RateLimited\<close>
  with the messages and the directory untouched. Ten calls within one minute are all
  admitted, and a submit in that minute that follows them is refused and leaves the
  whole state as it was.
\<close>

theorem rate_limit_admission:
  assumes "prompt inp \<noteq> []"
  shows "(fst (check_rate_limit now w) \<longleftrightarrow> length (filter (\<lambda>t. t > now - 60) w) < 10)
       \<and> snd (check_rate_limit now w)
           = filter (\<lambda>t. t > now - 60) w @ (if fst (check_rate_limit now w) then [now] else [])
       \<and> (\<not> fst (check_rate_limit (clock inp) (api_calls s)) \<longrightarrow>
            submit loads inp s dir =
              (RateLimited, s\<lparr>api_calls := filter (\<lambda>t. t > clock inp - 60) (api_calls s)\<rparr>, dir))
       \<and> (length ts = 10 \<and> sorted ts \<and> (\<forall>t \<in> set ts. clock inp - 60 < t \<and> t \<le> clock inp) \<longrightarrow>
            admitted ts [] = ts \<and> run_calls ts [] = ts
            \<and> (api_calls s = run_calls ts [] \<longrightarrow> submit loads inp s dir = (RateLimited, s, dir)))"
proof -
  have a: "fst (check_rate_limit now w) \<longleftrightarrow> length (filter (\<lambda>t. t > now - 60) w) < 10"
    by (auto simp: check_rate_limit_def Let_def)
  have b: "snd (check_rate_limit now w)
           = filter (\<lambda>t. t > now - 60) w @ (if fst (check_rate_limit now w) then [now] else [])"
    by (simp add: check_rate_limit_def Let_def)
  have c: "\<not> fst (check_rate_limit (clock inp) (api_calls s)) \<longrightarrow>
            submit loads inp s dir =
              (RateLimited, s\<lparr>api_calls := filter (\<lambda>t. t > clock inp - 60) (api_calls s)\<rparr>, dir)"
    using submit_rejected [OF assms] by blast
  have d: "admitted ts [] = ts \<and> run_calls ts [] = ts
            \<and> (api_calls s = run_calls ts [] \<longrightarrow> submit loads inp s dir = (RateLimited, s, dir))"
    if len: "length ts = 10" and srt: "sorted ts"
      and rng: "\<forall>t \<in> set ts. clock inp - 60 < t \<and> t \<le> clock inp"
  proof -
    have ft: "run_calls ts [] = ts \<and> admitted ts [] = ts"
      using first_ten_admitted [OF srt _ rng] len by simp
    have keep: "filter (\<lambda>t. t > clock inp - 60) ts = ts"
      using rng by (auto simp: filter_id_conv)
    have "submit loads inp s dir = (RateLimited, s, dir)" if eq: "api_calls s = run_calls ts []"
    proof -
      have w: "api_calls s = ts" using eq ft by simp
      have "\<not> fst (check_rate_limit (clock inp) (api_calls s))"
        using len by (simp add: check_rate_limit_def Let_def w keep)
      from submit_rejected [OF assms this] have
        "submit loads inp s dir = (RateLimited, s\<lparr>api_calls := api_calls s\<rparr>, dir)"
        by (simp add: w keep)
      then show ?thesis by simp
    qed
    with ft show ?thesis by simp
  qed
  from a b c d show ?thesis by blast
qed

theorem rate_limit_admission_witness:
  "prompt hello \<noteq> []
   \<and> length [91, 92, 93, 94, 95, 96, 97, 98, 99, 100 :: real] = 10
   \<and> sorted [91, 92, 93, 94, 95, 96, 97, 98, 99, 100 :: real]
   \<and> set [91, 92, 93, 94, 95, 96, 97, 98, 99, 100] \<subseteq> {clock hello - 60 <.. clock hello}
   \<and> admitted [91, 92, 93, 94, 95, 96, 97, 98, 99, 100] [] = [91, 92, 93, 94, 95, 96, 97, 98, 99, 100]
   \<and> submit sample_loads hello
        (fresh\<lparr>api_calls := run_calls [91, 92, 93, 94, 95, 96, 97, 98, 99, 100] []\<rparr>) []
      = (RateLimited,
         fresh\<lparr>api_calls := run_calls [91, 92, 93, 94, 95, 96, 97, 98, 99, 100] []\<rparr>, [])"
proof -
  let ?ts = "[91, 92, 93, 94, 95, 96, 97, 98, 99, 100 :: real]"
  let ?s = "fresh\<lparr>api_calls := run_calls ?ts []\<rparr>"
  have p: "prompt hello \<noteq> []" by (simp add: hello_def)
  have sub: "set ?ts \<subseteq> {clock hello - 60 <.. clock hello}"
    by (simp add: hello_def)
  have h: "length ?ts = 10 \<and> sorted ?ts
           \<and> (\<forall>t \<in> set ?ts. clock hello - 60 < t \<and> t \<le> clock hello)"
    by (simp add: hello_def)
  have imp: "length ?ts = 10 \<and> sorted ?ts
             \<and> (\<forall>t \<in> set ?ts. clock hello - 60 < t \<and> t \<le> clock hello) \<longrightarrow>
             admitted ?ts [] = ?ts \<and> run_calls ?ts [] = ?ts
             \<and> (api_calls ?s = run_calls ?ts [] \<longrightarrow>
                  submit sample_loads hello ?s [] = (RateLimited, ?s, []))"
    using rate_limit_admission [OF p, of 0 "[]" ?s sample_loads "[]" ?ts] by blast
  have eq: "api_calls ?s = run_calls ?ts []"
    by simp
  from imp h eq have res: "admitted ?ts [] = ?ts
      \<and> submit sample_loads hello ?s [] = (RateLimited, ?s, [])"
    by blast
  from p h sub res show ?thesis by blast
qed

text \<open>
  C3 as stated fails at the boundary: of the ten entries 40 to 49 none is older than 60
  seconds at the reading 100, so ten remain by the rule of the claim and the call should
  be refused; the code prunes the entry 40, which is exactly 60 seconds old, and admits.
\<close>

theorem boundary_entry_counterexample:
  "length (filter (\<lambda>t. \<not> 100 - t > 60) [40, 41, 42, 43, 44, 45, 46, 47, 48, 49 :: real]) = 10
   \<and> check_rate_limit 100 [40, 41, 42, 43, 44, 45, 46, 47, 48, 49]
       = (True, [41, 42, 43, 44, 45, 46, 47, 48, 49, 100])"
  by (simp add: check_rate_limit_def)

text \<open>
  C10. The call of \<^verbatim>\<open>check_rate_limit\<close> comes first in the handler. Once it has
  admitted the submit, the clock reading is the last entry of \<^verbatim>\<open>api_calls\<close> when the
  handler ends, whatever the outcome: a missing API key (the messages and the directory
  are then untouched), an error of the request or of the stream, a failed save, or an
  answer. No path removes it.
\<close>

theorem rate_slot_consumed:
  assumes "prompt inp \<noteq> []" "fst (check_rate_limit (clock inp) (api_calls s))"
  shows "api_calls (fst (snd (submit loads inp s dir)))
           = filter (\<lambda>t. t > clock inp - 60) (api_calls s) @ [clock inp]
       \<and> (api_key inp = [] \<longrightarrow>
            fst (submit loads inp s dir) = MissingApiKey
            \<and> messages (fst (snd (submit loads inp s dir))) = messages s
            \<and> snd (snd (submit loads inp s dir)) = dir)"
  using assms
  by (auto simp: submit_def try_body_def pop_def check_rate_limit_def Let_def save_chat_history_def
           split: if_splits sum.splits prod.splits)

theorem rate_slot_consumed_witness:
  "prompt (hello\<lparr>api_key := []\<rparr>) \<noteq> []
   \<and> fst (check_rate_limit (clock (hello\<lparr>api_key := []\<rparr>)) (api_calls fresh))
   \<and> submit sample_loads (hello\<lparr>api_key := []\<rparr>) fresh []
      = (MissingApiKey, fresh\<lparr>api_calls := [100]\<rparr>, [])
   \<and> api_calls (fst (snd (submit sample_loads (hello\<lparr>reply := Reply 429 [] True\<rparr>) fresh [])))
      = [100]"
proof -
  have p: "prompt (hello\<lparr>api_key := []\<rparr>) \<noteq> []" by (simp add: hello_def)
  have a: "fst (check_rate_limit (clock (hello\<lparr>api_key := []\<rparr>)) (api_calls fresh))"
    by (simp add: hello_def fresh_def check_rate_limit_def)
  have p': "prompt (hello\<lparr>reply := Reply 429 [] True\<rparr>) \<noteq> []" by (simp add: hello_def)
  have a': "fst (check_rate_limit (clock (hello\<lparr>reply := Reply 429 [] True\<rparr>)) (api_calls fresh))"
    by (simp add: hello_def fresh_def check_rate_limit_def)
  have m: "submit sample_loads (hello\<lparr>api_key := []\<rparr>) fresh []
           = (MissingApiKey, fresh\<lparr>api_calls := [100]\<rparr>, [])"
    using rate_slot_consumed [OF p a, of sample_loads "[]"]
    by (simp add: submit_def hello_def fresh_def check_rate_limit_def)
  have e: "api_calls (fst (snd (submit sample_loads (hello\<lparr>reply := Reply 429 [] True\<rparr>) fresh [])))
           = [100]"
    using rate_slot_consumed [OF p' a', of sample_loads "[]"]
    by (simp add: hello_def fresh_def)
  from p a m e show ?thesis by blast
qed

section \<open>Properties of the streaming loop\<close>

lemma stream_loop_append:
  "stream_loop loads p (xs @ ys) cj fr =
     (case stream_loop loads p xs cj fr of
        Inl e \<Rightarrow> Inl e
      | Inr (cj', fr') \<Rightarrow> stream_loop loads p ys cj' fr')"
  by (induction xs arbitrary: cj fr) (simp_all split: sum.splits)

lemma add_delta_content:
  assumes "delta_content payload = Some text"
  shows "add_delta payload fr = Inr (fr @ text)"
proof -
  from assms obtain kvs choice rest delta where
    p: "payload = JDict kvs"
    and c: "map_of kvs ''choices'' = Some (JList (JDict choice # rest))"
    and d: "map_of choice ''delta'' = Some (JDict delta)"
    and t: "map_of delta ''content'' = Some (JStr text)"
    by (auto simp: delta_content_def split: json.splits option.splits list.splits)
  have kc: "''choices'' \<in> fst ` set kvs"
    using c by (metis map_of_eq_None_iff option.distinct(1))
  have kt: "''content'' \<in> fst ` set delta"
    using t by (metis map_of_eq_None_iff option.distinct(1))
  show ?thesis
    using kc kt by (simp add: add_delta_def p c d t)
qed

lemma py_in_dict: "py_in k (JDict kvs) = Inr (map_of kvs k \<noteq> None)"
  by (simp add: map_of_eq_None_iff)

lemma add_delta_result:
  assumes "add_delta payload fr = Inr fr'"
  shows "fr' = fr @ (case delta_content payload of None \<Rightarrow> [] | Some text \<Rightarrow> text)"
proof (cases payload)
  case (JDict kvs)
  note pl = this
  show ?thesis
  proof (cases "map_of kvs ''choices''")
    case None
    with assms JDict show ?thesis
      by (simp add: add_delta_def delta_content_def py_in_dict del: py_in.simps)
  next
    case (Some choices)
    note chs = this
    then have "\<exists>choice. getitem0 choices = Inr choice"
      using assms JDict
      by (auto simp: add_delta_def py_in_dict simp del: py_in.simps split: sum.splits)
    then obtain choice where g0: "getitem0 choices = Inr choice" by blast
    have "\<exists>delta. get_delta choice = Inr delta"
      using assms JDict Some g0
      by (auto simp: add_delta_def py_in_dict simp del: py_in.simps split: sum.splits)
    then obtain delta where gd: "get_delta choice = Inr delta" by blast
    from gd obtain ckvs where ch: "choice = JDict ckvs"
      by (cases choice) simp_all
    from g0 ch obtain rest where cs: "choices = JList (JDict ckvs # rest)"
      by (cases choices rule: getitem0.cases) simp_all
    have step: "(case py_in ''content'' delta of
                   Inl e \<Rightarrow> Inl e
                 | Inr False \<Rightarrow> Inr fr
                 | Inr True \<Rightarrow> (case getitem delta ''content'' of
                                  Inl e \<Rightarrow> Inl e | Inr v \<Rightarrow> iadd_str fr v)) = Inr fr'"
      using assms JDict Some g0 gd
      by (simp add: add_delta_def py_in_dict del: py_in.simps)
    have dl: "delta = (case map_of ckvs ''delta'' of None \<Rightarrow> JDict [] | Some d \<Rightarrow> d)"
      using gd ch by simp
    show ?thesis
    proof (cases delta)
      case (JDict dkvs)
      show ?thesis
      proof (cases "map_of dkvs ''content''")
        case None
        with step JDict have "fr' = fr"
          by (simp add: py_in_dict del: py_in.simps)
        moreover have "delta_content payload = None"
          using pl chs cs dl JDict None
          by (auto simp: delta_content_def split: option.splits json.splits)
        ultimately show ?thesis by simp
      next
        case (Some v)
        with step JDict have iv: "iadd_str fr v = Inr fr'"
          by (simp add: py_in_dict del: py_in.simps)
        then obtain d where v: "v = JStr d" and f: "fr' = fr @ d"
          by (cases v) auto
        have "delta_content payload = Some d"
          using pl chs cs dl JDict Some v
          by (auto simp: delta_content_def split: option.splits json.splits)
        with f show ?thesis by simp
      qed
    next
      case JNull
      with step show ?thesis by simp
    next
      case (JBool b)
      with step show ?thesis by simp
    next
      case (JNum n)
      with step show ?thesis by simp
    next
      case (JStr t)
      with step have "fr' = fr" by (auto split: bool.splits)
      moreover have "delta_content payload = None"
        using pl chs cs dl JStr
        by (auto simp: delta_content_def split: option.splits json.splits)
      ultimately show ?thesis by simp
    next
      case (JList ds)
      with step have "fr' = fr" by (auto split: bool.splits)
      moreover have "delta_content payload = None"
        using pl chs cs dl JList
        by (auto simp: delta_content_def split: option.splits json.splits)
      ultimately show ?thesis by simp
    qed
  qed
next
  case JNull
  with assms show ?thesis by (simp add: add_delta_def)
next
  case (JBool b)
  with assms show ?thesis by (simp add: add_delta_def)
next
  case (JNum n)
  with assms show ?thesis by (simp add: add_delta_def)
next
  case (JStr t)
  with assms show ?thesis by (auto simp: add_delta_def delta_content_def split: bool.splits)
next
  case (JList xs)
  with assms show ?thesis by (auto simp: add_delta_def delta_content_def split: bool.splits)
qed

lemma stream_loop_deltas:
  assumes "\<forall>t. Utf8 t \<in> set chunks \<longrightarrow> t \<noteq> [] \<longrightarrow> p = ''OpenRouter'' \<longrightarrow>
             prefix ''data: '' (strip t)"
    and "stream_loop loads p chunks cj fr = Inr (cj', fr')"
  shows "fr' = fr @ deltas_in_order loads p chunks"
  using assms
proof (induction chunks arbitrary: cj fr)
  case Nil
  then show ?case by (simp add: deltas_in_order_def)
next
  case (Cons c chunks)
  have rest: "\<forall>t. Utf8 t \<in> set chunks \<longrightarrow> t \<noteq> [] \<longrightarrow> p = ''OpenRouter'' \<longrightarrow>
                prefix ''data: '' (strip t)"
    using Cons.prems(1) by simp
  show ?case
  proof (cases "is_empty c")
    case True
    then have "c = Utf8 []" by (cases c) simp_all
    with Cons.prems(2) Cons.IH [OF rest] show ?thesis
      by (simp add: deltas_in_order_def frame_delta_def)
  next
    case False
    from Cons.prems(2) False obtain cj1 fr1 where
      d: "decode_chunk loads p cj c = Inr cj1"
      and a: "add_delta cj1 fr = Inr fr1"
      and r: "stream_loop loads p chunks cj1 fr1 = Inr (cj', fr')"
      by (auto split: sum.splits)
    from d obtain t where c: "c = Utf8 t"
      by (cases c) (auto simp: decode_chunk_def split: if_splits)
    have ne: "t \<noteq> []" using False c by simp
    have pf: "parsed_frame loads p c = Some cj1"
      using d c ne Cons.prems(1)
      by (auto simp: decode_chunk_def parsed_text_def Let_def split: if_splits sum.splits)
    have "fr1 = fr @ frame_delta loads p c"
      using add_delta_result [OF a] by (simp add: frame_delta_def pf)
    moreover have "fr' = fr1 @ deltas_in_order loads p chunks"
      using Cons.IH [OF rest r] .
    ultimately show ?thesis by (simp add: deltas_in_order_def)
  qed
qed

lemma add_delta_initial: "add_delta (JStr []) fr = Inr fr"
  by (simp add: add_delta_def)

lemma openrouter_skips_other_lines:
  assumes "\<not> prefix ''data: '' (strip t)"
  shows "decode_chunk loads ''OpenRouter'' cj (Utf8 t) = Inr cj"
  using assms by (simp add: decode_chunk_def Let_def)

lemma sample_stream_with_comment:
  "stream_loop sample_loads ''OpenRouter'' [frame_hi, frame_comment, frame_there] (JStr []) []
     = Inr (delta_payload '' there'', ''HiHi there'')"
  by (simp add: sample_loads_def decode_chunk_def add_delta_def strip_def isspace_def
        frame_hi_def frame_comment_def frame_there_def delta_payload_def)

lemma sample_deltas_with_comment:
  "deltas_in_order sample_loads ''OpenRouter'' [frame_hi, frame_comment, frame_there]
     = ''Hi there''"
  by (simp add: deltas_in_order_def frame_delta_def parsed_text_def delta_content_def
        sample_loads_def strip_def isspace_def frame_hi_def frame_comment_def frame_there_def
        delta_payload_def)

text \<open>
  C9. For \<^verbatim>\<open>"OpenRouter"\<close>, a non-empty line whose text, once stripped, does not start
  with \<^verbatim>\<open>"data: "\<close> leaves \<^verbatim>\<open>chunk_json\<close> as the pass before set it, and the rest of
  the body runs on it again: when that payload carries a delta, the delta is appended a
  second time. So there are bodies on which the loop ends normally with a text that is
  not the concatenation of one delta for each parsed frame.
\<close>

theorem stale_payload_reprocessed:
  assumes "t \<noteq> []" "\<not> prefix ''data: '' (strip t)"
    and "delta_content chunk_json = Some d"
  shows "stream_loop loads ''OpenRouter'' (Utf8 t # chunks) chunk_json full_response
           = stream_loop loads ''OpenRouter'' chunks chunk_json (full_response @ d)
       \<and> (\<exists>loads' chunks' cj fr.
             stream_loop loads' ''OpenRouter'' chunks' (JStr []) [] = Inr (cj, fr)
             \<and> fr \<noteq> deltas_in_order loads' ''OpenRouter'' chunks')"
proof -
  have "stream_loop loads ''OpenRouter'' (Utf8 t # chunks) chunk_json full_response
           = stream_loop loads ''OpenRouter'' chunks chunk_json (full_response @ d)"
    using assms(1) openrouter_skips_other_lines [OF assms(2)] add_delta_content [OF assms(3)]
    by simp
  moreover have "''HiHi there'' \<noteq> deltas_in_order sample_loads ''OpenRouter''
                   [frame_hi, frame_comment, frame_there]"
    by (simp add: sample_deltas_with_comment)
  then have "\<exists>loads' chunks' cj fr.
             stream_loop loads' ''OpenRouter'' chunks' (JStr []) [] = Inr (cj, fr)
             \<and> fr \<noteq> deltas_in_order loads' ''OpenRouter'' chunks'"
    using sample_stream_with_comment by blast
  ultimately show ?thesis by blast
qed

theorem stale_payload_reprocessed_witness:
  "'': OPENROUTER PROCESSING'' \<noteq> [] \<and> delta_content (delta_payload ''Hi'') = Some ''Hi''
   \<and> stream_loop sample_loads ''OpenRouter'' [Utf8 '': OPENROUTER PROCESSING'', frame_there]
        (delta_payload ''Hi'') ''Hi''
      = Inr (delta_payload '' there'', ''HiHi there'')"
proof -
  have a: "'': OPENROUTER PROCESSING'' \<noteq> []" by simp
  have b: "\<not> prefix ''data: '' (strip '': OPENROUTER PROCESSING'')"
    by (simp add: strip_def isspace_def)
  have c: "delta_content (delta_payload ''Hi'') = Some ''Hi''"
    by (simp add: delta_content_def delta_payload_def)
  have d: "stream_loop sample_loads ''OpenRouter'' [frame_there] (delta_payload ''Hi'') (''Hi'' @ ''Hi'')
           = Inr (delta_payload '' there'', ''HiHi there'')"
    by (simp add: sample_loads_def decode_chunk_def add_delta_def strip_def isspace_def
          frame_there_def delta_payload_def)
  from stale_payload_reprocessed [OF a b c, of sample_loads "[frame_there]" "''Hi''"] d
  have "stream_loop sample_loads ''OpenRouter'' [Utf8 '': OPENROUTER PROCESSING'', frame_there]
          (delta_payload ''Hi'') ''Hi''
      = Inr (delta_payload '' there'', ''HiHi there'')"
    by (simp only:)
  with a c show ?thesis by blast
qed

section \<open>Properties of a submit\<close>

lemma submit_stream_failure:
  assumes "prompt inp \<noteq> []" "api_key inp \<noteq> []"
    and "fst (check_rate_limit (clock inp) (api_calls s))"
    and "stream_response loads inp = Inl e"
  shows "submit loads inp s dir =
           (Failed e,
            s\<lparr>api_calls := filter (\<lambda>t. t > clock inp - 60) (api_calls s) @ [clock inp]\<rparr>, dir)"
  using assms
  by (auto simp: submit_def try_body_def pop_def check_rate_limit_def Let_def split: if_splits)

lemma submit_save_failure:
  assumes "prompt inp \<noteq> []" "api_key inp \<noteq> []"
    and "fst (check_rate_limit (clock inp) (api_calls s))"
    and "stream_response loads inp = Inr r"
    and "\<not> writable inp"
  shows "submit loads inp s dir =
           (Failed OSError,
            s\<lparr>api_calls := filter (\<lambda>t. t > clock inp - 60) (api_calls s) @ [clock inp],
              messages := messages s
                @ [\<lparr>role = ''user'',
                    content = (if file_content inp \<noteq> []
                               then file_content inp @ [CHR 0x0A] @ prompt inp
                               else prompt inp)\<rparr>]\<rparr>,
            dir)"
  using assms
  by (auto simp: submit_def try_body_def pop_def check_rate_limit_def Let_def
        save_chat_history_def split: if_splits)

lemma load_files_snoc:
  "load_files (dir @ [(file, obj)]) history =
     (if suffix ''.json'' file
      then (load_files dir history)(take (length file - 5) file \<mapsto> obj)
      else load_files dir history)"
  by (induction dir arbitrary: history) auto

lemma load_after_write:
  "load_chat_history (write_file (chat @ ''.json'') obj dir) chat = Some obj"
  by (simp add: load_chat_history_def write_file_def load_files_snoc suffix_def)

lemma submit_answered:
  assumes "submit loads inp s dir = (Answered r, s', dir')"
  shows "prompt inp \<noteq> [] \<and> api_key inp \<noteq> [] \<and> writable inp
       \<and> fst (check_rate_limit (clock inp) (api_calls s))
       \<and> stream_response loads inp = Inr r
       \<and> s' = s\<lparr>api_calls := filter (\<lambda>t. t > clock inp - 60) (api_calls s) @ [clock inp],
                 messages := messages s
                   @ [\<lparr>role = ''user'',
                       content = (if file_content inp \<noteq> []
                                  then file_content inp @ [CHR 0x0A] @ prompt inp
                                  else prompt inp)\<rparr>,
                      \<lparr>role = ''assistant'', content = r\<rparr>]\<rparr>
       \<and> dir' = write_file (current_chat s @ ''.json'')
                  \<lparr>timestamp = iso_time inp, saved_messages = messages s'\<rparr> dir"
  using assms
  by (auto simp: submit_def try_body_def pop_def check_rate_limit_def Let_def
        save_chat_history_def split: if_splits sum.splits)

lemma submit_success:
  assumes "prompt inp \<noteq> []" "api_key inp \<noteq> []"
    and "fst (check_rate_limit (clock inp) (api_calls s))"
    and "stream_response loads inp = Inr r"
    and "writable inp"
  shows "submit loads inp s dir =
           (Answered r,
            s\<lparr>api_calls := filter (\<lambda>t. t > clock inp - 60) (api_calls s) @ [clock inp],
              messages := messages s
                @ [\<lparr>role = ''user'',
                    content = (if file_content inp \<noteq> []
                               then file_content inp @ [CHR 0x0A] @ prompt inp
                               else prompt inp)\<rparr>,
                   \<lparr>role = ''assistant'', content = r\<rparr>]\<rparr>,
            write_file (current_chat s @ ''.json'')
              \<lparr>timestamp = iso_time inp,
               saved_messages = messages s
                 @ [\<lparr>role = ''user'',
                     content = (if file_content inp \<noteq> []
                                then file_content inp @ [CHR 0x0A] @ prompt inp
                                else prompt inp)\<rparr>,
                    \<lparr>role = ''assistant'', content = r\<rparr>]\<rparr>
              dir)"
  using assms
  by (auto simp: submit_def try_body_def pop_def check_rate_limit_def Let_def
        save_chat_history_def split: if_splits)

lemma sample_stream_plain:
  "stream_loop sample_loads ''OpenRouter'' [frame_hi, frame_empty, frame_there] (JStr []) []
     = Inr (delta_payload '' there'', ''Hi there'')"
  by (simp add: sample_loads_def decode_chunk_def add_delta_def strip_def isspace_def
        frame_hi_def frame_empty_def frame_there_def delta_payload_def)

lemma sample_response:
  assumes "reply inp = Reply 200 [frame_hi, frame_empty, frame_there] True"
    and "api_provider inp = ''OpenRouter''"
  shows "stream_response sample_loads inp = Inr ''Hi there''"
  using assms by (simp add: stream_response_def sample_stream_plain del: stream_loop.simps)

lemma sample_response_with_comment:
  assumes "reply inp = Reply 200 [frame_hi, frame_comment, frame_there] True"
    and "api_provider inp = ''OpenRouter''"
  shows "stream_response sample_loads inp = Inr ''HiHi there''"
  using assms by (simp add: stream_response_def sample_stream_with_comment del: stream_loop.simps)

lemma sample_stream_broken:
  "stream_loop sample_loads ''OpenRouter'' [frame_hi, frame_broken, frame_there] (JStr []) []
     = Inl JSONDecodeError"
  "stream_loop sample_loads ''DeepSeek Direct'' [frame_hi, frame_broken, frame_there] (JStr []) []
     = Inl JSONDecodeError"
  by (simp_all add: sample_loads_def decode_chunk_def add_delta_def strip_def lstrip_def
        isspace_def frame_hi_def frame_broken_def frame_there_def delta_payload_def)

text \<open>
  C1. The claim fails on the path where the stream succeeds and the save raises: the
  assistant message has been appended by then, so the \<^verbatim>\<open>pop\<close> of the handler removes
  it and the user message stays as the last entry of the log. The next save (here the
  button \<^verbatim>\<open>New Chat\<close>) writes that log to the file of the chat.
\<close>

theorem failed_save_keeps_user_turn:
  "submit sample_loads (hello\<lparr>writable := False\<rparr>) fresh []
     = (Failed OSError, fresh\<lparr>messages := [user_msg ''Hello''], api_calls := [100]\<rparr>, [])
   \<and> new_chat True ''2024-05-01T12:05:00'' ''chat-2''
        (fresh\<lparr>messages := [user_msg ''Hello''], api_calls := [100]\<rparr>) []
     = Inr (\<lparr>messages = [], current_chat = ''chat-2'', api_calls = [100]\<rparr>,
            [(''chat-1.json'',
              \<lparr>timestamp = ''2024-05-01T12:05:00'', saved_messages = [user_msg ''Hello'']\<rparr>)])"
proof -
  have a: "submit sample_loads (hello\<lparr>writable := False\<rparr>) fresh []
     = (Failed OSError, fresh\<lparr>messages := [user_msg ''Hello''], api_calls := [100]\<rparr>, [])"
    by (simp add: submit_def try_body_def sample_response pop_def check_rate_limit_def
          save_chat_history_def file_content_def hello_def fresh_def user_msg_def Let_def)
  have b: "new_chat True ''2024-05-01T12:05:00'' ''chat-2''
        (fresh\<lparr>messages := [user_msg ''Hello''], api_calls := [100]\<rparr>) []
     = Inr (\<lparr>messages = [], current_chat = ''chat-2'', api_calls = [100]\<rparr>,
            [(''chat-1.json'',
              \<lparr>timestamp = ''2024-05-01T12:05:00'', saved_messages = [user_msg ''Hello'']\<rparr>)])"
    by (simp add: new_chat_def save_chat_history_def write_file_def fresh_def)
  from a b show ?thesis by blast
qed

text \<open>
  C7, as the code has it. The rollback of both handlers is \<^verbatim>\<open>messages.pop()\<close>: it takes
  no message, compares nothing, and on a log that is not empty it removes the last
  entry and cannot fail. When the request or the stream raises, the last entry is the
  user message of this submit, and the handler leaves the log and the directory as they
  were before the submit.
\<close>

theorem rollback_is_pop:
  assumes "prompt inp \<noteq> []" "api_key inp \<noteq> []"
    and "fst (check_rate_limit (clock inp) (api_calls s))"
    and "stream_response loads inp = Inl e"
  shows "pop (msgs @ [m]) = Inr msgs
       \<and> fst (submit loads inp s dir) = Failed e
       \<and> messages (fst (snd (submit loads inp s dir))) = messages s
       \<and> snd (snd (submit loads inp s dir)) = dir"
  using submit_stream_failure [OF assms] by (simp add: pop_def)

theorem rollback_is_pop_witness:
  "prompt (hello\<lparr>reply := Reply 429 [] True\<rparr>) \<noteq> []
   \<and> stream_response sample_loads (hello\<lparr>reply := Reply 429 [] True\<rparr>) = Inl (HTTPError 429)
   \<and> pop ([user_msg ''Earlier''] @ [user_msg ''Hello'']) = Inr [user_msg ''Earlier'']
   \<and> fst (submit sample_loads (hello\<lparr>reply := Reply 429 [] True\<rparr>) fresh []) = Failed (HTTPError 429)
   \<and> messages (fst (snd (submit sample_loads (hello\<lparr>reply := Reply 429 [] True\<rparr>) fresh [])))
      = messages fresh
   \<and> snd (snd (submit sample_loads (hello\<lparr>reply := Reply 429 [] True\<rparr>) fresh [])) = []"
proof -
  let ?inp = "hello\<lparr>reply := Reply 429 [] True\<rparr>"
  have p: "prompt ?inp \<noteq> []" and k: "api_key ?inp \<noteq> []"
    by (simp_all add: hello_def)
  have a: "fst (check_rate_limit (clock ?inp) (api_calls fresh))"
    by (simp add: hello_def fresh_def check_rate_limit_def)
  have r: "stream_response sample_loads ?inp = Inl (HTTPError 429)"
    by (simp add: stream_response_def hello_def)
  from rollback_is_pop [OF p k a r, of "[user_msg ''Earlier'']" "user_msg ''Hello''" "[]"] p r
  show ?thesis by blast
qed

text \<open>
  C7 as stated fails: when the save raises, the handler runs on a log whose last entry
  is the assistant message, not the user message that the rollback is meant for; the
  \<^verbatim>\<open>pop\<close> raises nothing and changes the log.
\<close>

theorem rollback_removes_assistant_counterexample:
  "try_body sample_loads (hello\<lparr>writable := False\<rparr>) (fresh\<lparr>messages := [user_msg ''Hello'']\<rparr>) []
     = (Inl OSError, fresh\<lparr>messages := [user_msg ''Hello'', assistant_msg ''Hi there'']\<rparr>, [])
   \<and> user_msg ''Hello'' \<noteq> last [user_msg ''Hello'', assistant_msg ''Hi there'']
   \<and> pop [user_msg ''Hello'', assistant_msg ''Hi there''] = Inr [user_msg ''Hello'']"
  by (simp add: try_body_def sample_response pop_def save_chat_history_def hello_def fresh_def
        user_msg_def assistant_msg_def Let_def)

lemma openrouter_leading_noise:
  assumes "\<forall>t \<in> set noise. \<not> prefix ''data: '' (strip t)"
  shows "stream_loop loads ''OpenRouter'' (map Utf8 noise) (JStr []) fr = Inr (JStr [], fr)"
  using assms
  by (induction noise) (simp_all add: openrouter_skips_other_lines add_delta_initial)

lemma unreadable_chunk_raises:
  assumes "case chunk of
             Not_utf8 \<Rightarrow> e = UnicodeDecodeError
           | Utf8 t \<Rightarrow>
               t \<noteq> []
               \<and> (if p = ''OpenRouter''
                  then prefix ''data: '' (strip t) \<and> loads (drop 6 (strip t)) = Inl e
                  else loads (lstrip ''data: '' t) = Inl e)"
  shows "stream_loop loads p (chunk # chunks) cj fr = Inl e"
  using assms by (cases chunk) (auto simp: decode_chunk_def Let_def split: if_splits)

text \<open>
  C4, as the code has it. No frame that reaches \<^verbatim>\<open>json.loads\<close> is skipped when it
  fails to parse: the loop has no handler of its own, so the exception ends it at that
  frame, the frames after it are not read, and the generic handler reports the error
  and removes the user message; nothing is appended or saved. The frames that the loop
  parses are, for \<^verbatim>\<open>"OpenRouter"\<close>, those whose text starts with \<^verbatim>\<open>"data: "\<close> once
  stripped, and for the other provider every non-empty frame. A line that is not UTF-8
  ends the loop in the same way, with the error of \<^verbatim>\<open>decode()\<close>. Only the lines that
  \<^verbatim>\<open>"OpenRouter"\<close> does not parse are passed over: a run of any length of them at the
  start of the body raises nothing and adds nothing.
\<close>

theorem unparsable_frame_aborts:
  assumes "prompt inp \<noteq> []" "api_key inp \<noteq> []"
    and "fst (check_rate_limit (clock inp) (api_calls s))"
    and "reply inp = Reply status (before @ chunk # rest) intact"
    and "\<not> (400 \<le> status \<and> status < 600)"
    and "stream_loop loads (api_provider inp) before (JStr []) [] = Inr (cj, fr)"
    and "case chunk of
           Not_utf8 \<Rightarrow> e = UnicodeDecodeError
         | Utf8 t \<Rightarrow>
             t \<noteq> []
             \<and> (if api_provider inp = ''OpenRouter''
                then prefix ''data: '' (strip t) \<and> loads (drop 6 (strip t)) = Inl e
                else loads (lstrip ''data: '' t) = Inl e)"
  shows "submit loads inp s dir =
           (Failed e,
            s\<lparr>api_calls := filter (\<lambda>t. t > clock inp - 60) (api_calls s) @ [clock inp]\<rparr>, dir)
       \<and> ((\<forall>t \<in> set noise. \<not> prefix ''data: '' (strip t)) \<longrightarrow>
            stream_loop loads ''OpenRouter'' (map Utf8 noise) (JStr []) fr0 = Inr (JStr [], fr0))"
proof -
  have "stream_loop loads (api_provider inp) (before @ chunk # rest) (JStr []) [] = Inl e"
    using assms(6) unreadable_chunk_raises [OF assms(7)]
    by (simp add: stream_loop_append del: stream_loop.simps)
  then have "stream_response loads inp = Inl e"
    using assms(4,5) by (auto simp: stream_response_def simp del: stream_loop.simps)
  from submit_stream_failure [OF assms(1,2,3) this] openrouter_leading_noise
  show ?thesis by blast
qed

theorem unparsable_frame_aborts_witness:
  "prompt (hello\<lparr>reply := Reply 200 ([frame_hi] @ frame_broken # [frame_there]) True\<rparr>) \<noteq> []
   \<and> stream_loop sample_loads ''OpenRouter'' [frame_hi] (JStr []) [] = Inr (delta_payload ''Hi'', ''Hi'')
   \<and> frame_broken = Utf8 ''data: {broken''
   \<and> prefix ''data: '' (strip ''data: {broken'')
   \<and> sample_loads (drop 6 (strip ''data: {broken'')) = Inl JSONDecodeError
   \<and> submit sample_loads
        (hello\<lparr>reply := Reply 200 ([frame_hi] @ frame_broken # [frame_there]) True\<rparr>) fresh []
      = (Failed JSONDecodeError, fresh\<lparr>api_calls := [100]\<rparr>, [])
   \<and> stream_loop sample_loads ''OpenRouter''
        (map Utf8 ['': OPENROUTER PROCESSING'', '': OPENROUTER PROCESSING'']) (JStr []) []
      = Inr (JStr [], [])"
proof -
  let ?inp = "hello\<lparr>reply := Reply 200 ([frame_hi] @ frame_broken # [frame_there]) True\<rparr>"
  let ?noise = "['': OPENROUTER PROCESSING'', '': OPENROUTER PROCESSING'']"
  have p: "prompt ?inp \<noteq> []" and k: "api_key ?inp \<noteq> []"
    by (simp_all add: hello_def)
  have a: "fst (check_rate_limit (clock ?inp) (api_calls fresh))"
    by (simp add: hello_def fresh_def check_rate_limit_def)
  have r: "reply ?inp = Reply 200 ([frame_hi] @ frame_broken # [frame_there]) True"
    by simp
  have st: "\<not> (400 \<le> (200::nat) \<and> (200::nat) < 600)" by simp
  have pre: "stream_loop sample_loads ''OpenRouter'' [frame_hi] (JStr []) []
             = Inr (delta_payload ''Hi'', ''Hi'')"
    by (simp add: sample_loads_def decode_chunk_def add_delta_def strip_def isspace_def
          frame_hi_def delta_payload_def)
  have pre': "stream_loop sample_loads (api_provider ?inp) [frame_hi] (JStr []) []
             = Inr (delta_payload ''Hi'', ''Hi'')"
    using pre by (simp add: hello_def del: stream_loop.simps)
  have fb: "frame_broken = Utf8 ''data: {broken''" by (simp add: frame_broken_def)
  have pf: "prefix ''data: '' (strip ''data: {broken'')"
    by (simp add: strip_def isspace_def)
  have un: "sample_loads (drop 6 (strip ''data: {broken'')) = Inl JSONDecodeError"
    by (simp add: strip_def isspace_def sample_loads_def)
  have bad: "case frame_broken of
           Not_utf8 \<Rightarrow> JSONDecodeError = UnicodeDecodeError
         | Utf8 t \<Rightarrow>
             t \<noteq> []
             \<and> (if api_provider ?inp = ''OpenRouter''
                then prefix ''data: '' (strip t) \<and> sample_loads (drop 6 (strip t)) = Inl JSONDecodeError
                else sample_loads (lstrip ''data: '' t) = Inl JSONDecodeError)"
    using pf un by (simp add: fb hello_def)
  have noise: "\<forall>t \<in> set ?noise. \<not> prefix ''data: '' (strip t)"
    by (simp add: strip_def isspace_def)
  have cl: "clock ?inp = 100" and ac: "api_calls fresh = []"
    by (simp_all add: hello_def fresh_def)
  from unparsable_frame_aborts [OF p k a r st pre' bad, of "[]" ?noise "[]"] noise
  have "submit sample_loads ?inp fresh []
          = (Failed JSONDecodeError,
             fresh\<lparr>api_calls := filter (\<lambda>t. t > clock ?inp - 60) (api_calls fresh) @ [clock ?inp]\<rparr>, [])
        \<and> stream_loop sample_loads ''OpenRouter'' (map Utf8 ?noise) (JStr []) [] = Inr (JStr [], [])"
    by blast
  then have "submit sample_loads ?inp fresh [] = (Failed JSONDecodeError, fresh\<lparr>api_calls := [100]\<rparr>, [])
        \<and> stream_loop sample_loads ''OpenRouter'' (map Utf8 ?noise) (JStr []) [] = Inr (JStr [], [])"
    by (simp only: cl ac filter.simps append_Nil)
  with p pre fb pf un show ?thesis by blast
qed

text \<open>
  C4 as stated fails for both providers: with an unparsable frame between two valid
  ones the loop raises \<^verbatim>\<open>JSONDecodeError\<close>, and the submit ends in the handler with the
  user message removed and no assistant message.
\<close>

theorem unparsable_frame_counterexample:
  "stream_loop sample_loads ''OpenRouter'' [frame_hi, frame_broken, frame_there] (JStr []) []
     = Inl JSONDecodeError
   \<and> stream_loop sample_loads ''DeepSeek Direct'' [frame_hi, frame_broken, frame_there] (JStr []) []
     = Inl JSONDecodeError
   \<and> submit sample_loads (hello\<lparr>reply := Reply 200 [frame_hi, frame_broken, frame_there] True\<rparr>)
        fresh []
     = (Failed JSONDecodeError, fresh\<lparr>api_calls := [100]\<rparr>, [])"
proof -
  have "submit sample_loads (hello\<lparr>reply := Reply 200 [frame_hi, frame_broken, frame_there] True\<rparr>)
        fresh []
     = (Failed JSONDecodeError, fresh\<lparr>api_calls := [100]\<rparr>, [])"
    by (simp add: submit_def try_body_def stream_response_def sample_stream_broken pop_def
          check_rate_limit_def file_content_def hello_def fresh_def Let_def
          del: stream_loop.simps)
  with sample_stream_broken show ?thesis by blast
qed

lemma answered_text_is_deltas:
  assumes "submit loads inp s dir = (Answered r, s', dir')"
    and "reply inp = Reply status chunks intact"
    and "\<forall>t. Utf8 t \<in> set chunks \<longrightarrow> t \<noteq> [] \<longrightarrow> api_provider inp = ''OpenRouter'' \<longrightarrow>
           prefix ''data: '' (strip t)"
  shows "r = deltas_in_order loads (api_provider inp) chunks"
proof -
  have "stream_response loads inp = Inr r"
    using submit_answered [OF assms(1)] by blast
  then obtain cj where "stream_loop loads (api_provider inp) chunks (JStr []) [] = Inr (cj, r)"
    using assms(2) by (auto simp: stream_response_def split: if_splits sum.splits)
  from stream_loop_deltas [OF assms(3) this] show ?thesis by simp
qed

text \<open>
  C5. The claim fails for \<^verbatim>\<open>"OpenRouter"\<close> on a body with a comment line between two
  data frames: the submit succeeds, and the assistant message that is appended and
  saved holds the first delta twice, while the deltas of the parsed frames, in order,
  are \<open>''Hi there''\<close>.
\<close>

theorem duplicated_delta_in_answer:
  "submit sample_loads (hello\<lparr>reply := Reply 200 [frame_hi, frame_comment, frame_there] True\<rparr>)
     fresh []
     = (Answered ''HiHi there'',
        fresh\<lparr>messages := [user_msg ''Hello'', assistant_msg ''HiHi there''], api_calls := [100]\<rparr>,
        [(''chat-1.json'',
          \<lparr>timestamp = ''2024-05-01T12:00:00'',
           saved_messages = [user_msg ''Hello'', assistant_msg ''HiHi there'']\<rparr>)])
   \<and> deltas_in_order sample_loads ''OpenRouter'' [frame_hi, frame_comment, frame_there]
     = ''Hi there''"
proof -
  have "submit sample_loads (hello\<lparr>reply := Reply 200 [frame_hi, frame_comment, frame_there] True\<rparr>)
     fresh []
     = (Answered ''HiHi there'',
        fresh\<lparr>messages := [user_msg ''Hello'', assistant_msg ''HiHi there''], api_calls := [100]\<rparr>,
        [(''chat-1.json'',
          \<lparr>timestamp = ''2024-05-01T12:00:00'',
           saved_messages = [user_msg ''Hello'', assistant_msg ''HiHi there'']\<rparr>)])"
    by (simp add: submit_def try_body_def sample_response_with_comment pop_def
          check_rate_limit_def save_chat_history_def write_file_def file_content_def
          hello_def fresh_def user_msg_def assistant_msg_def Let_def)
  with sample_deltas_with_comment show ?thesis by blast
qed

text \<open>
  C6, as the code has it. The code tests the extracted text, not the presence of a file.
  A submit with a prompt and an API key that is admitted, whose response streams
  without error and whose save succeeds, is answered: the log gains the user message,
  whose content is the extracted text, a newline and the prompt when the extracted text
  is not empty, and the prompt alone otherwise; then the assistant message. The file of
  the chat, read back by \<^verbatim>\<open>load_chat_history\<close>, holds exactly that log. The extracted
  text is empty when no file is attached, and is what \<^verbatim>\<open>read_uploaded_file\<close> returns
  when one is.
\<close>

theorem user_content_composed:
  assumes "prompt inp \<noteq> []" "api_key inp \<noteq> []"
    and "fst (check_rate_limit (clock inp) (api_calls s))"
    and "stream_response loads inp = Inr r"
    and "writable inp"
  shows "fst (submit loads inp s dir) = Answered r
       \<and> messages (fst (snd (submit loads inp s dir))) =
           messages s
           @ [\<lparr>role = ''user'',
               content = (if file_content inp \<noteq> []
                          then file_content inp @ [CHR 0x0A] @ prompt inp
                          else prompt inp)\<rparr>,
              \<lparr>role = ''assistant'', content = r\<rparr>]
       \<and> load_chat_history (snd (snd (submit loads inp s dir))) (current_chat s) =
           Some \<lparr>timestamp = iso_time inp,
                 saved_messages =
                   messages s
                   @ [\<lparr>role = ''user'',
                       content = (if file_content inp \<noteq> []
                                  then file_content inp @ [CHR 0x0A] @ prompt inp
                                  else prompt inp)\<rparr>,
                      \<lparr>role = ''assistant'', content = r\<rparr>]\<rparr>
       \<and> (uploaded_file inp = None \<longrightarrow> file_content inp = [])
       \<and> (\<forall>file. uploaded_file inp = Some file \<longrightarrow> file_content inp = read_uploaded_file file)"
proof -
  note run = submit_success [OF assms, of dir]
  have a: "fst (submit loads inp s dir) = Answered r"
    by (simp add: run)
  have b: "messages (fst (snd (submit loads inp s dir))) =
           messages s
           @ [\<lparr>role = ''user'',
               content = (if file_content inp \<noteq> []
                          then file_content inp @ [CHR 0x0A] @ prompt inp
                          else prompt inp)\<rparr>,
              \<lparr>role = ''assistant'', content = r\<rparr>]"
    by (simp add: run)
  have c: "load_chat_history (snd (snd (submit loads inp s dir))) (current_chat s) =
           Some \<lparr>timestamp = iso_time inp,
                 saved_messages =
                   messages s
                   @ [\<lparr>role = ''user'',
                       content = (if file_content inp \<noteq> []
                                  then file_content inp @ [CHR 0x0A] @ prompt inp
                                  else prompt inp)\<rparr>,
                      \<lparr>role = ''assistant'', content = r\<rparr>]\<rparr>"
    by (simp only: run snd_conv load_after_write)
  have d: "uploaded_file inp = None \<longrightarrow> file_content inp = []"
    by (simp add: file_content_def)
  have e: "\<forall>file. uploaded_file inp = Some file \<longrightarrow> file_content inp = read_uploaded_file file"
    by (simp add: file_content_def)
  from a b c d e show ?thesis by blast
qed

theorem user_content_composed_witness:
  "prompt (hello\<lparr>uploaded_file := Some (text_file ''Context.''), prompt := ''Summarize.''\<rparr>) \<noteq> []
   \<and> stream_response sample_loads
        (hello\<lparr>uploaded_file := Some (text_file ''Context.''), prompt := ''Summarize.''\<rparr>)
      = Inr ''Hi there''
   \<and> file_content (hello\<lparr>uploaded_file := Some (text_file ''Context.''), prompt := ''Summarize.''\<rparr>)
      = ''Context.''
   \<and> fst (submit sample_loads
            (hello\<lparr>uploaded_file := Some (text_file ''Context.''), prompt := ''Summarize.''\<rparr>)
            fresh [])
      = Answered ''Hi there''
   \<and> load_chat_history
        (snd (snd (submit sample_loads
           (hello\<lparr>uploaded_file := Some (text_file ''Context.''), prompt := ''Summarize.''\<rparr>)
           fresh [])))
        ''chat-1''
      = Some \<lparr>timestamp = ''2024-05-01T12:00:00'',
              saved_messages = [user_msg (''Context.'' @ [CHR 0x0A] @ ''Summarize.''),
                                assistant_msg ''Hi there'']\<rparr>
   \<and> submit sample_loads hello fresh []
     = (Answered ''Hi there'',
        fresh\<lparr>messages := [user_msg ''Hello'', assistant_msg ''Hi there''], api_calls := [100]\<rparr>,
        [(''chat-1.json'',
          \<lparr>timestamp = ''2024-05-01T12:00:00'',
           saved_messages = [user_msg ''Hello'', assistant_msg ''Hi there'']\<rparr>)])"
proof -
  let ?inp = "hello\<lparr>uploaded_file := Some (text_file ''Context.''), prompt := ''Summarize.''\<rparr>"
  have p: "prompt ?inp \<noteq> []" and k: "api_key ?inp \<noteq> []" and w: "writable ?inp"
    by (simp_all add: hello_def)
  have a: "fst (check_rate_limit (clock ?inp) (api_calls fresh))"
    by (simp add: hello_def fresh_def check_rate_limit_def)
  have r: "stream_response sample_loads ?inp = Inr ''Hi there''"
    by (rule sample_response) (simp_all add: hello_def)
  have fc: "file_content ?inp = ''Context.''"
    by (simp add: file_content_def read_uploaded_file_def text_file_def)
  have pr: "prompt ?inp = ''Summarize.''" by simp
  have it: "iso_time ?inp = ''2024-05-01T12:00:00''" by (simp add: hello_def)
  have cc: "current_chat fresh = ''chat-1''" and mf: "messages fresh = []"
    by (simp_all add: fresh_def)
  have plain: "submit sample_loads hello fresh []
     = (Answered ''Hi there'',
        fresh\<lparr>messages := [user_msg ''Hello'', assistant_msg ''Hi there''], api_calls := [100]\<rparr>,
        [(''chat-1.json'',
          \<lparr>timestamp = ''2024-05-01T12:00:00'',
           saved_messages = [user_msg ''Hello'', assistant_msg ''Hi there'']\<rparr>)])"
    by (simp add: submit_def try_body_def sample_response pop_def check_rate_limit_def
          save_chat_history_def write_file_def file_content_def hello_def fresh_def
          user_msg_def assistant_msg_def Let_def)
  note inst = user_content_composed [OF p k a r w, of "[]"]
  from inst have ans: "fst (submit sample_loads ?inp fresh []) = Answered ''Hi there''"
    by blast
  from inst have "load_chat_history (snd (snd (submit sample_loads ?inp fresh []))) (current_chat fresh) =
           Some \<lparr>timestamp = iso_time ?inp,
                 saved_messages =
                   messages fresh
                   @ [\<lparr>role = ''user'',
                       content = (if file_content ?inp \<noteq> []
                                  then file_content ?inp @ [CHR 0x0A] @ prompt ?inp
                                  else prompt ?inp)\<rparr>,
                      \<lparr>role = ''assistant'', content = ''Hi there''\<rparr>]\<rparr>"
    by blast
  then have ld: "load_chat_history (snd (snd (submit sample_loads ?inp fresh []))) ''chat-1''
      = Some \<lparr>timestamp = ''2024-05-01T12:00:00'',
              saved_messages = [user_msg (''Context.'' @ [CHR 0x0A] @ ''Summarize.''),
                                assistant_msg ''Hi there'']\<rparr>"
    unfolding fc pr it cc mf by (simp add: user_msg_def assistant_msg_def)
  from p r fc ans ld plain show ?thesis by blast
qed

text \<open>
  C6 as stated fails for an attached file whose extracted text is empty, here an empty
  text file: a file is attached, and the user message that is saved is the prompt
  alone, without the newline in front of it.
\<close>

theorem empty_attachment_counterexample:
  "uploaded_file (hello\<lparr>uploaded_file := Some (text_file []), prompt := ''Summarize.''\<rparr>)
     = Some (text_file [])
   \<and> read_uploaded_file (text_file []) = []
   \<and> submit sample_loads
        (hello\<lparr>uploaded_file := Some (text_file []), prompt := ''Summarize.''\<rparr>) fresh []
     = (Answered ''Hi there'',
        fresh\<lparr>messages := [user_msg ''Summarize.'', assistant_msg ''Hi there''],
              api_calls := [100]\<rparr>,
        [(''chat-1.json'',
          \<lparr>timestamp = ''2024-05-01T12:00:00'',
           saved_messages = [user_msg ''Summarize.'', assistant_msg ''Hi there'']\<rparr>)])
   \<and> ''Summarize.'' \<noteq> read_uploaded_file (text_file []) @ [CHR 0x0A] @ ''Summarize.''"
  by (simp add: submit_def try_body_def sample_response pop_def check_rate_limit_def
        save_chat_history_def write_file_def file_content_def read_uploaded_file_def
        text_file_def hello_def fresh_def user_msg_def assistant_msg_def Let_def)

text \<open>
  C8. Appending a message to the log and saving writes the file of the current chat;
  \<^verbatim>\<open>load_chat_history\<close> then gives, under the identifier of the chat, the object with
  the timestamp of the save and the former messages followed by the new one, in order.
  Saving the log as it is gives it back unchanged.
\<close>

theorem append_save_load:
  "(\<exists>dir'. save_chat_history True stamp (s\<lparr>messages := messages s @ [m]\<rparr>) dir = Inr dir'
           \<and> load_chat_history dir' (current_chat s)
              = Some \<lparr>timestamp = stamp, saved_messages = messages s @ [m]\<rparr>)
   \<and> (\<exists>dir'. save_chat_history True stamp s dir = Inr dir'
           \<and> load_chat_history dir' (current_chat s)
              = Some \<lparr>timestamp = stamp, saved_messages = messages s\<rparr>)"
  by (simp add: save_chat_history_def load_after_write)

theorem append_save_load_witness:
  "\<exists>dir'. save_chat_history True ''2024-05-01T12:00:00''
             (fresh\<lparr>messages := messages fresh @ [user_msg ''Hello'']\<rparr>) [] = Inr dir'
          \<and> load_chat_history dir' (current_chat fresh)
             = Some \<lparr>timestamp = ''2024-05-01T12:00:00'',
                     saved_messages = messages fresh @ [user_msg ''Hello'']\<rparr>"
  by (rule append_save_load [THEN conjunct1])

end
